theory Spec2Isabelle
  imports Complex_Main "HOL-Library.Sublist"
begin

section \<open>Text and characters\<close>

text \<open>
  Python strings are modelled as \<open>string\<close> (lists of \<open>char\<close>). The character classes
  below are those of Python 3 on ASCII text: \<open>\s\<close>, \<open>str.strip()\<close> and \<open>str.split()\<close> use
  \<open>str.isspace\<close> (codes 9-13, 28-31 and 32), \<open>\w\<close> is a letter, a digit or the underscore,
  and \<open>str.lower()\<close> maps \<open>A-Z\<close> to \<open>a-z\<close>. Characters outside ASCII are outside the
  model: theorems whose truth depends on the alphabet carry the hypothesis
  \<open>ascii_text\<close>.
\<close>

definition ascii_lowercase :: string where
  "ascii_lowercase = ''abcdefghijklmnopqrstuvwxyz''"

definition ascii_uppercase :: string where
  "ascii_uppercase = ''ABCDEFGHIJKLMNOPQRSTUVWXYZ''"

definition digits :: string where
  "digits = ''0123456789''"

definition whitespace :: string where
  "whitespace = [CHR 0x09, CHR 0x0A, CHR 0x0B, CHR 0x0C, CHR 0x0D,
                 CHR 0x1C, CHR 0x1D, CHR 0x1E, CHR 0x1F, CHR '' '']"

definition is_space :: "char \<Rightarrow> bool" where
  "is_space c \<longleftrightarrow> c \<in> set whitespace"

definition is_word :: "char \<Rightarrow> bool" where
  "is_word c \<longleftrightarrow> c \<in> set ascii_lowercase \<or> c \<in> set ascii_uppercase \<or> c \<in> set digits \<or> c = CHR ''_''"

definition lower_char :: "char \<Rightarrow> char" where
  "lower_char c = (case map_of (zip ascii_uppercase ascii_lowercase) c of Some l \<Rightarrow> l | None \<Rightarrow> c)"

definition lower :: "string \<Rightarrow> string" where
  "lower text = map lower_char text"

definition ascii_char :: "char \<Rightarrow> bool" where
  "ascii_char c \<longleftrightarrow> \<not> digit7 c"

definition ascii_text :: "string \<Rightarrow> bool" where
  "ascii_text text \<longleftrightarrow> list_all ascii_char text"

text \<open>Python's \<open>word in text\<close> on strings: \<open>word\<close> occurs as a contiguous substring.\<close>

definition contains :: "string \<Rightarrow> string \<Rightarrow> bool" where
  "contains text word \<longleftrightarrow> sublist word text"

section \<open>The rule-based scorer (\<open>EnhancedSentimentAnalyzer._rule_based_sentiment\<close>)\<close>

definition strong_positive :: "string list" where
  "strong_positive = [''excellent'', ''amazing'', ''wonderful'', ''fantastic'', ''outstanding'',
                      ''brilliant'', ''superb'', ''perfect'', ''exceptional'', ''phenomenal'']"

definition positive :: "string list" where
  "positive = [''good'', ''great'', ''nice'', ''better'', ''improved'', ''positive'',
               ''support'', ''like'', ''love'', ''approve'', ''recommend'']"

definition negative :: "string list" where
  "negative = [''bad'', ''poor'', ''worse'', ''negative'', ''dislike'', ''hate'',
               ''problem'', ''issue'', ''concern'', ''criticize'', ''oppose'']"

definition strong_negative :: "string list" where
  "strong_negative = [''terrible'', ''awful'', ''horrible'', ''disastrous'', ''catastrophic'',
                      ''dreadful'', ''appalling'', ''atrocious'', ''deplorable'', ''abysmal'']"

text \<open>\<^verbatim>\<open>sum(1 for word in lexicon if word in text)\<close>\<close>

definition count_in :: "string list \<Rightarrow> string \<Rightarrow> int" where
  "count_in lexicon text = sum_list (map (\<lambda>word. 1) (filter (\<lambda>word. contains text word) lexicon))"

definition strong_pos_count :: "string \<Rightarrow> int" where
  "strong_pos_count text = count_in strong_positive (lower text)"

definition pos_count :: "string \<Rightarrow> int" where
  "pos_count text = count_in positive (lower text)"

definition neg_count :: "string \<Rightarrow> int" where
  "neg_count text = count_in negative (lower text)"

definition strong_neg_count :: "string \<Rightarrow> int" where
  "strong_neg_count text = count_in strong_negative (lower text)"

definition total_positive :: "string \<Rightarrow> int" where
  "total_positive text = strong_pos_count text * 2 + pos_count text"

definition total_negative :: "string \<Rightarrow> int" where
  "total_negative text = strong_neg_count text * 2 + neg_count text"

definition rule_based_sentiment :: "string \<Rightarrow> real" where
  "rule_based_sentiment text =
     (if total_positive text > total_negative text then
        (if strong_pos_count text > 0 then 0.8 else 0.5)
      else if total_negative text > total_positive text then
        (if strong_neg_count text > 0 then - 0.8 else - 0.5)
      else 0.0)"

section \<open>Text cleaning (\<open>EnhancedSentimentAnalyzer.clean_text\<close>)\<close>

text \<open>
  The argument of \<open>clean_text\<close> is any Python value; only the distinction between a
  \<open>str\<close> and everything else matters to the code (\<^verbatim>\<open>isinstance(text, str)\<close>).
\<close>

datatype py_value = Str string | NoneValue | Number real

text \<open>
  \<^verbatim>\<open>re.sub(r'http\S+', '', text)\<close>: scanning from the left, a match starts where the text
  reads \<open>http\<close> followed by at least one non-whitespace character; the greedy \<open>\S+\<close> takes
  every non-whitespace character that follows, and the scan resumes behind the match.
\<close>

definition url_at :: "string \<Rightarrow> bool" where
  "url_at text \<longleftrightarrow>
     take 4 text = ''http'' \<and> (case drop 4 text of [] \<Rightarrow> False | d # _ \<Rightarrow> \<not> is_space d)"

function remove_urls :: "string \<Rightarrow> string" where
  "remove_urls [] = []"
| "remove_urls (c # cs) =
     (if url_at (c # cs)
      then remove_urls (dropWhile (\<lambda>d. \<not> is_space d) (drop 4 (c # cs)))
      else c # remove_urls cs)"
  by pat_completeness auto
termination
  by (relation "measure length")
     (auto intro: le_less_trans [OF length_dropWhile_le])

text \<open>
  \<^verbatim>\<open>re.sub(r'@(\w+)', r'\1', text)\<close> and its twin for \<open>#\<close>: a match is the marker followed
  by at least one word character; it is replaced by the (greedy) run of word characters
  and the scan resumes behind the run.
\<close>

function unwrap_tag :: "char \<Rightarrow> string \<Rightarrow> string" where
  "unwrap_tag m [] = []"
| "unwrap_tag m (c # cs) =
     (if c = m \<and> (case cs of [] \<Rightarrow> False | d # _ \<Rightarrow> is_word d)
      then takeWhile is_word cs @ unwrap_tag m (dropWhile is_word cs)
      else c # unwrap_tag m cs)"
  by pat_completeness auto
termination
  by (relation "measure (\<lambda>(m, text). length text)")
     (auto intro: le_less_trans [OF length_dropWhile_le])

text \<open>\<^verbatim>\<open>re.sub(r'[^\w\s\']', ' ', text)\<close>\<close>

definition blank_punctuation :: "string \<Rightarrow> string" where
  "blank_punctuation text =
     map (\<lambda>c. if is_word c \<or> is_space c \<or> c = CHR 0x27 then c else CHR '' '') text"

text \<open>\<^verbatim>\<open>str.strip()\<close>\<close>

definition strip :: "string \<Rightarrow> string" where
  "strip text = rev (dropWhile is_space (rev (dropWhile is_space text)))"

text \<open>\<^verbatim>\<open>re.sub(r'\s+', ' ', text)\<close>\<close>

function collapse_spaces :: "string \<Rightarrow> string" where
  "collapse_spaces [] = []"
| "collapse_spaces (c # cs) =
     (if is_space c then CHR '' '' # collapse_spaces (dropWhile is_space cs)
      else c # collapse_spaces cs)"
  by pat_completeness auto
termination
  by (relation "measure length")
     (auto intro: le_less_trans [OF length_dropWhile_le])

definition clean_str :: "string \<Rightarrow> string" where
  "clean_str text0 =
     (let text = remove_urls text0;
          text = unwrap_tag (CHR ''@'') text;
          text = unwrap_tag (CHR ''#'') text;
          text = blank_punctuation text;
          text = strip (lower text);
          text = collapse_spaces text
      in text)"

definition clean_text :: "py_value \<Rightarrow> string" where
  "clean_text v = (case v of Str text \<Rightarrow> clean_str text | _ \<Rightarrow> [])"

text \<open>
  Predicates on cleaned text: \<open>has_url\<close> holds when \<^verbatim>\<open>http\S+\<close> matches somewhere in
  the text; \<open>clean_char\<close> is the class \<^verbatim>\<open>[\w\s']\<close>; \<open>norm_char\<close> is a \<open>clean_char\<close> that
  \<open>lower\<close> leaves alone; \<open>trimmed\<close> is a text without leading or trailing whitespace.
\<close>

fun has_url :: "string \<Rightarrow> bool" where
  "has_url [] = False"
| "has_url (c # cs) = (url_at (c # cs) \<or> has_url cs)"

definition clean_char :: "char \<Rightarrow> bool" where
  "clean_char c \<longleftrightarrow> is_word c \<or> is_space c \<or> c = CHR 0x27"

definition norm_char :: "char \<Rightarrow> bool" where
  "norm_char c \<longleftrightarrow> clean_char c \<and> lower_char c = c"

definition trimmed :: "string \<Rightarrow> bool" where
  "trimmed text \<longleftrightarrow> text = [] \<or> (\<not> is_space (hd text) \<and> \<not> is_space (last text))"

section \<open>Scoring with the loaded model (\<open>EnhancedSentimentAnalyzer.analyze_sentiment\<close>)\<close>

text \<open>
  The classifier and the vectorizer are external artifacts. A call of either may raise;
  an exception that \<^verbatim>\<open>except Exception\<close> catches is a value \<open>Exn msg\<close>. The vectorizer
  maps a list of texts to features, the classifier maps features to an array of labels.
  \<open>None\<close> is an artifact that was not loaded; a loaded artifact is a truthy object.
\<close>

datatype exn = Exn string

record 'f analyzer =
  model :: "('f \<Rightarrow> exn + string list) option"
  vectorizer :: "(string list \<Rightarrow> exn + 'f) option"

definition sentiment_map :: "(string \<times> real) list" where
  "sentiment_map = [(''strong_negative'', - 0.9), (''negative'', - 0.6), (''neutral'', 0.0),
                    (''positive'', 0.6), (''strong_positive'', 0.9)]"

text \<open>\<^verbatim>\<open>sentiment_map.get(prediction, 0.0)\<close>\<close>

definition sentiment_map_get :: "string \<Rightarrow> real" where
  "sentiment_map_get prediction =
     (case map_of sentiment_map prediction of Some score \<Rightarrow> score | None \<Rightarrow> 0.0)"

text \<open>
  The body of the \<^verbatim>\<open>try\<close> block: \<open>Inl\<close> is an exception raised by \<open>transform\<close>, by
  \<open>predict\<close> or by the index \<open>[0]\<close> into an empty prediction array.
\<close>

definition ml_predict ::
  "('f \<Rightarrow> exn + string list) \<Rightarrow> (string list \<Rightarrow> exn + 'f) \<Rightarrow> string \<Rightarrow> exn + real" where
  "ml_predict mdl vec cleaned_text =
     (case vec [cleaned_text] of
        Inl e \<Rightarrow> Inl e
      | Inr text_tfidf \<Rightarrow>
          (case mdl text_tfidf of
             Inl e \<Rightarrow> Inl e
           | Inr [] \<Rightarrow> Inl (Exn ''IndexError'')
           | Inr (prediction # _) \<Rightarrow> Inr (sentiment_map_get prediction)))"

definition analyze_sentiment :: "'f analyzer \<Rightarrow> py_value \<Rightarrow> real" where
  "analyze_sentiment self text =
     (let cleaned_text = clean_text text in
      case (model self, vectorizer self) of
        (Some mdl, Some vec) \<Rightarrow>
          (case ml_predict mdl vec cleaned_text of
             Inr score \<Rightarrow> score
           | Inl e \<Rightarrow> rule_based_sentiment cleaned_text)
      | _ \<Rightarrow> rule_based_sentiment cleaned_text)"

definition batch_analyze :: "'f analyzer \<Rightarrow> py_value list \<Rightarrow> real list" where
  "batch_analyze self texts = map (analyze_sentiment self) texts"

text \<open>Three concrete analyzers, used to exercise the theorems below.\<close>

definition constant_analyzer :: "string \<Rightarrow> string list analyzer" where
  "constant_analyzer label =
     \<lparr>model = Some (\<lambda>features. Inr [label]), vectorizer = Some (\<lambda>texts. Inr texts)\<rparr>"

definition failing_vectorizer_analyzer :: "string list analyzer" where
  "failing_vectorizer_analyzer =
     \<lparr>model = Some (\<lambda>features. Inr [''positive'']),
      vectorizer = Some (\<lambda>texts. Inl (Exn ''transform failed''))\<rparr>"

definition rule_based_analyzer :: "string list analyzer" where
  "rule_based_analyzer = \<lparr>model = None, vectorizer = None\<rparr>"

section \<open>Python numbers\<close>

text \<open>
  A Python \<open>float\<close> is an IEEE-754 binary64 number. \<open>rn\<close> rounds a real number to the
  nearest binary64 value, ties to the even mantissa, with gradual underflow and an
  exponent that is not bounded above; \<open>binade x\<close> is the exponent \<open>e\<close> with
  \<open>2^e \<le> |x| < 2^(e+1)\<close>. \<open>true_div\<close> is \<^verbatim>\<open>a / b\<close> on two \<open>int\<close>s: the correctly
  rounded quotient, \<open>ZeroDivisionError\<close> for a zero divisor and \<open>OverflowError\<close> when the
  rounded quotient is beyond the largest float. \<open>py_int\<close> is \<^verbatim>\<open>int(x)\<close> on a float
  (truncation towards zero) and \<open>round_half_even\<close> is \<^verbatim>\<open>round(x)\<close>.
\<close>

definition py_int :: "real \<Rightarrow> int" where
  "py_int x = (if 0 \<le> x then \<lfloor>x\<rfloor> else \<lceil>x\<rceil>)"

definition round_half_even :: "real \<Rightarrow> int" where
  "round_half_even x =
     (let f = \<lfloor>x\<rfloor>; d = x - of_int f
      in if d < 1 / 2 then f else if 1 / 2 < d then f + 1 else if even f then f else f + 1)"

text \<open>\<^verbatim>\<open>int.bit_length()\<close> of a positive integer (0 for the others).\<close>

function bit_length :: "int \<Rightarrow> int" where
  "bit_length n = (if n \<le> 0 then 0 else bit_length (n div 2) + 1)"
  by pat_completeness auto
termination
  by (relation "measure nat") auto

declare bit_length.simps [simp del]

definition binade :: "real \<Rightarrow> int" where
  "binade x =
     (if 1 \<le> \<bar>x\<bar> then bit_length \<lfloor>\<bar>x\<bar>\<rfloor> - 1
      else - bit_length (\<lceil>1 / \<bar>x\<bar>\<rceil> - 1))"

text \<open>The spacing of the binary64 numbers around \<open>x\<close>: 52 fraction bits, least exponent -1022.\<close>

definition quantum :: "real \<Rightarrow> real" where
  "quantum x = 2 powi (max (binade x) (- 1022) - 52)"

definition rn :: "real \<Rightarrow> real" where
  "rn x = (if x = 0 then 0 else of_int (round_half_even (x / quantum x)) * quantum x)"

definition true_div :: "int \<Rightarrow> int \<Rightarrow> exn + real" where
  "true_div a b =
     (if b = 0 then Inl (Exn ''ZeroDivisionError'')
      else let y = rn (real_of_int a / real_of_int b)
           in if 2 ^ 1024 \<le> \<bar>y\<bar> then Inl (Exn ''OverflowError'') else Inr y)"

section \<open>Per-candidate statistics (\<open>views.get_results\<close>)\<close>

text \<open>
  A sampled row of the CSV file, with the columns that the engagement and keyword
  steps read: \<open>tweet_text\<close> is \<^verbatim>\<open>row['text']\<close>, \<open>likes\<close> and \<open>retweets\<close> are the values
  of \<^verbatim>\<open>int(row.get('likes', 0))\<close> and \<^verbatim>\<open>int(row.get('retweets', 0))\<close>, Python integers of
  any size.
\<close>

record row =
  candidate :: string
  tweet_text :: string
  likes :: int
  retweets :: int


subsection \<open>Engagement\<close>

record engagement =
  avg_likes :: int
  avg_retweets :: int
  total_reach :: int

text \<open>\<^verbatim>\<open>int(sum(xs) / len(xs)) if xs else 0\<close>; the division is the one that can raise.\<close>

definition int_average :: "int list \<Rightarrow> exn + int" where
  "int_average xs =
     (if xs \<noteq> [] then
        (case true_div (sum_list xs) (int (length xs)) of
           Inl e \<Rightarrow> Inl e
         | Inr y \<Rightarrow> Inr (py_int y))
      else Inr 0)"

definition engagement_of :: "row list \<Rightarrow> exn + engagement" where
  "engagement_of sample =
     (let likes_list = map likes sample;
          retweets_list = map retweets sample;
          reach = sum_list likes_list + sum_list retweets_list * 2
      in case int_average likes_list of
           Inl e \<Rightarrow> Inl e
         | Inr al \<Rightarrow>
             (case int_average retweets_list of
                Inl e \<Rightarrow> Inl e
              | Inr ar \<Rightarrow> Inr \<lparr>avg_likes = al, avg_retweets = ar, total_reach = reach\<rparr>))"

subsection \<open>Keywords\<close>

definition upper_char :: "char \<Rightarrow> char" where
  "upper_char c = (case map_of (zip ascii_lowercase ascii_uppercase) c of Some u \<Rightarrow> u | None \<Rightarrow> c)"

definition upper :: "string \<Rightarrow> string" where
  "upper s = map upper_char s"

text \<open>\<^verbatim>\<open>str.split()\<close>: the maximal runs of non-whitespace characters.\<close>

function split_ws :: "string \<Rightarrow> string list" where
  "split_ws s =
     (case dropWhile is_space s of
        [] \<Rightarrow> []
      | c # cs \<Rightarrow> (c # takeWhile (\<lambda>d. \<not> is_space d) cs) # split_ws (dropWhile (\<lambda>d. \<not> is_space d) cs))"
  by pat_completeness auto
termination
proof (relation "measure length")
  fix s c cs
  assume "dropWhile is_space s = c # cs"
  then have "length (c # cs) \<le> length s"
    by (metis length_dropWhile_le)
  moreover have "length (dropWhile (\<lambda>d. \<not> is_space d) cs) \<le> length cs"
    by (rule length_dropWhile_le)
  ultimately show "(dropWhile (\<lambda>d. \<not> is_space d) cs, s) \<in> measure length"
    by simp
qed simp

declare split_ws.simps [simp del]

text \<open>\<^verbatim>\<open>word.strip(chars)\<close>\<close>

definition strip_chars :: "string \<Rightarrow> string \<Rightarrow> string" where
  "strip_chars chars word =
     rev (dropWhile (\<lambda>c. c \<in> set chars) (rev (dropWhile (\<lambda>c. c \<in> set chars) word)))"

definition punctuation :: string where
  "punctuation = ''.,!?'' @ [CHR 0x22] @ '';:()[]''"

definition keyword_allowlist :: "string list" where
  "keyword_allowlist = [''economy'', ''apc'', ''pdp'', ''lp'', ''reform'', ''manifesto'',
                        ''experience'', ''governance'', ''unity'', ''youth'', ''change'',
                        ''accountability'', ''development'', ''education'', ''security'',
                        ''jobs'', ''nigeria'', ''vote'', ''leadership'']"

definition extract_keywords :: "string \<Rightarrow> string list" where
  "extract_keywords s =
     (let words = split_ws (lower s)
      in map upper (filter (\<lambda>clean. clean \<in> set keyword_allowlist)
                     (map (strip_chars punctuation) words)))"

definition fallback_table :: "(string \<times> string list) list" where
  "fallback_table = [(''tinubu'', [''ECONOMY'', ''APC'', ''REFORM'', ''MANIFESTO'']),
                     (''atiku'', [''EXPERIENCE'', ''PDP'', ''GOVERNANCE'', ''UNITY'']),
                     (''obi'', [''YOUTH'', ''LP'', ''CHANGE'', ''ACCOUNTABILITY''])]"

text \<open>
  \<^verbatim>\<open>fallback[candidate]\<close>; the loop only looks up the three keys of the table, for any
  other key the model returns the empty list.
\<close>

definition fallback :: "string \<Rightarrow> string list" where
  "fallback key = (case map_of fallback_table key of Some ks \<Rightarrow> ks | None \<Rightarrow> [])"

text \<open>
  \<^verbatim>\<open>list(set(all_keywords))\<close> lists the distinct keywords in the iteration order of a
  Python set of strings, which depends on the hash seed of the process. The order is a
  parameter \<open>list_set\<close> of the model; \<open>set_listing\<close> says what every such order satisfies.
\<close>

definition set_listing :: "(string list \<Rightarrow> string list) \<Rightarrow> bool" where
  "set_listing list_set \<longleftrightarrow> (\<forall>ks. distinct (list_set ks) \<and> set (list_set ks) = set ks)"


definition all_keywords :: "row list \<Rightarrow> string list" where
  "all_keywords sample = concat (map (\<lambda>r. extract_keywords (tweet_text r)) sample)"

definition top_keywords :: "(string list \<Rightarrow> string list) \<Rightarrow> string \<Rightarrow> row list \<Rightarrow> string list" where
  "top_keywords list_set key sample =
     (let top = take 4 (list_set (all_keywords sample))
      in if length top < 4 then take 4 (top @ fallback key) else top)"


text \<open>
  A row with the given text, likes and retweets, and the exact mean of a list of
  integers; both are used to state and exercise the theorems.
\<close>

definition tweet :: "string \<Rightarrow> int \<Rightarrow> int \<Rightarrow> row" where
  "tweet s l r = \<lparr>candidate = ''tinubu'', tweet_text = s, likes = l, retweets = r\<rparr>"

definition mean :: "int list \<Rightarrow> real" where
  "mean xs = real_of_int (sum_list xs) / real (length xs)"

section \<open>Properties of the rule-based scorer\<close>

lemma count_in_filter:
  "count_in lexicon text = int (length (filter (\<lambda>word. contains text word) lexicon))"
  unfolding count_in_def by (induction lexicon) auto

lemma count_in_card:
  "distinct lexicon \<Longrightarrow> count_in lexicon text = int (card {word \<in> set lexicon. contains text word})"
  by (simp add: count_in_filter distinct_length_filter Int_def conj_commute)

lemma count_in_nonneg: "0 \<le> count_in lexicon text"
  by (simp add: count_in_filter)

lemma count_in_pos:
  "word \<in> set lexicon \<Longrightarrow> contains text word \<Longrightarrow> 0 < count_in lexicon text"
  by (auto simp: count_in_filter filter_empty_conv)

lemma count_in_zero:
  "(\<forall>word \<in> set lexicon. \<not> contains text word) \<Longrightarrow> count_in lexicon text = 0"
  by (simp add: count_in_filter filter_empty_conv)

lemma count_in_cong:
  "(\<And>word. word \<in> set lexicon \<Longrightarrow> contains text word = P word) \<Longrightarrow>
   count_in lexicon text = int (length (filter P lexicon))"
  unfolding count_in_filter by (simp cong: filter_cong)

lemma distinct_lexicons:
  "distinct strong_positive" "distinct positive" "distinct negative" "distinct strong_negative"
  by (simp_all add: strong_positive_def positive_def negative_def strong_negative_def)

lemma excellent_scores:
  assumes ex: "contains (lower text) ''excellent''"
    and none: "\<forall>word \<in> set negative \<union> set strong_negative. \<not> contains (lower text) word"
  shows "rule_based_sentiment text = 0.8"
proof -
  have sp: "0 < strong_pos_count text"
    unfolding strong_pos_count_def
    by (rule count_in_pos [OF _ ex]) (simp add: strong_positive_def)
  have n: "neg_count text = 0" "strong_neg_count text = 0"
    using none by (simp_all add: neg_count_def strong_neg_count_def count_in_zero)
  have p: "0 \<le> pos_count text"
    by (simp add: pos_count_def count_in_nonneg)
  from sp n p show ?thesis
    by (simp add: rule_based_sentiment_def total_positive_def total_negative_def)
qed

lemma good_bad_only:
  assumes only: "\<forall>word \<in> set (strong_positive @ positive @ negative @ strong_negative).
      contains (lower text) word \<longleftrightarrow> word = ''good'' \<or> word = ''bad''"
  shows "rule_based_sentiment text = 0"
proof -
  let ?P = "\<lambda>word. word = ''good'' \<or> word = ''bad''"
  have "strong_pos_count text = int (length (filter ?P strong_positive))"
    unfolding strong_pos_count_def using only by (intro count_in_cong) simp
  then have 1: "strong_pos_count text = 0" by (simp add: strong_positive_def)
  have "pos_count text = int (length (filter ?P positive))"
    unfolding pos_count_def using only by (intro count_in_cong) simp
  then have 2: "pos_count text = 1" by (simp add: positive_def)
  have "neg_count text = int (length (filter ?P negative))"
    unfolding neg_count_def using only by (intro count_in_cong) simp
  then have 3: "neg_count text = 1" by (simp add: negative_def)
  have "strong_neg_count text = int (length (filter ?P strong_negative))"
    unfolding strong_neg_count_def using only by (intro count_in_cong) simp
  then have 4: "strong_neg_count text = 0" by (simp add: strong_negative_def)
  from 1 2 3 4 show ?thesis
    by (simp add: rule_based_sentiment_def total_positive_def total_negative_def)
qed

text \<open>
  C1. For every text, with \<open>pos_mass = 2 * strong_pos_count + pos_count\<close> and
  \<open>neg_mass = 2 * strong_neg_count + neg_count\<close> over the four fixed lexicons, the
  rule-based scorer returns 0.8 if \<open>pos_mass > neg_mass\<close> and a strong positive word is
  present, 0.5 if \<open>pos_mass > neg_mass\<close> and none is, -0.8 if \<open>neg_mass > pos_mass\<close> and a
  strong negative word is present, -0.5 if \<open>neg_mass > pos_mass\<close> and none is, and 0.0 when
  the masses are equal. A text that contains "excellent" and no word of the two negative
  lexicons scores 0.8; a text in which "good" and "bad" are the only lexicon words
  present scores 0.0, as does the text "good bad" itself.
\<close>

theorem rule_based_sentiment_decision:
  "total_positive text = 2 * strong_pos_count text + pos_count text
   \<and> total_negative text = 2 * strong_neg_count text + neg_count text
   \<and> (total_positive text > total_negative text \<and> strong_pos_count text > 0
        \<longrightarrow> rule_based_sentiment text = 0.8)
   \<and> (total_positive text > total_negative text \<and> strong_pos_count text = 0
        \<longrightarrow> rule_based_sentiment text = 0.5)
   \<and> (total_negative text > total_positive text \<and> strong_neg_count text > 0
        \<longrightarrow> rule_based_sentiment text = - 0.8)
   \<and> (total_negative text > total_positive text \<and> strong_neg_count text = 0
        \<longrightarrow> rule_based_sentiment text = - 0.5)
   \<and> (total_positive text = total_negative text \<longrightarrow> rule_based_sentiment text = 0.0)
   \<and> (contains (lower text) ''excellent''
        \<and> (\<forall>word \<in> set negative \<union> set strong_negative. \<not> contains (lower text) word)
        \<longrightarrow> rule_based_sentiment text = 0.8)
   \<and> ((\<forall>word \<in> set (strong_positive @ positive @ negative @ strong_negative).
          contains (lower text) word \<longleftrightarrow> word = ''good'' \<or> word = ''bad'')
        \<longrightarrow> rule_based_sentiment text = 0.0)
   \<and> rule_based_sentiment ''good bad'' = 0.0"
proof -
  have masses: "total_positive text = 2 * strong_pos_count text + pos_count text"
    "total_negative text = 2 * strong_neg_count text + neg_count text"
    by (simp_all add: total_positive_def total_negative_def)
  have sn: "0 \<le> strong_neg_count text" and sp: "0 \<le> strong_pos_count text"
    by (simp_all add: strong_neg_count_def strong_pos_count_def count_in_nonneg)
  have a: "total_positive text > total_negative text \<and> strong_pos_count text > 0
        \<longrightarrow> rule_based_sentiment text = 0.8"
    by (simp add: rule_based_sentiment_def)
  have b: "total_positive text > total_negative text \<and> strong_pos_count text = 0
        \<longrightarrow> rule_based_sentiment text = 0.5"
    by (simp add: rule_based_sentiment_def)
  have c: "total_negative text > total_positive text \<and> strong_neg_count text > 0
        \<longrightarrow> rule_based_sentiment text = - 0.8"
    by (simp add: rule_based_sentiment_def)
  have d: "total_negative text > total_positive text \<and> strong_neg_count text = 0
        \<longrightarrow> rule_based_sentiment text = - 0.5"
    by (simp add: rule_based_sentiment_def)
  have e: "total_positive text = total_negative text \<longrightarrow> rule_based_sentiment text = 0.0"
    by (simp add: rule_based_sentiment_def)
  have f: "contains (lower text) ''excellent''
        \<and> (\<forall>word \<in> set negative \<union> set strong_negative. \<not> contains (lower text) word)
        \<longrightarrow> rule_based_sentiment text = 0.8"
    using excellent_scores by blast
  have g: "(\<forall>word \<in> set (strong_positive @ positive @ negative @ strong_negative).
          contains (lower text) word \<longleftrightarrow> word = ''good'' \<or> word = ''bad'')
        \<longrightarrow> rule_based_sentiment text = 0.0"
    using good_bad_only by simp
  have h: "rule_based_sentiment ''good bad'' = 0.0"
    by code_simp
  from masses a b c d e f g h show ?thesis
    by (intro conjI)
qed

theorem rule_based_sentiment_decision_witness:
  "rule_based_sentiment ''an Excellent plan'' = 0.8
   \<and> rule_based_sentiment ''good idea'' = 0.5
   \<and> rule_based_sentiment ''a terrible idea'' = - 0.8
   \<and> rule_based_sentiment ''bad idea'' = - 0.5
   \<and> rule_based_sentiment ''nothing to see'' = 0.0
   \<and> rule_based_sentiment ''good or bad'' = 0.0"
proof -
  have 1: "contains (lower ''an Excellent plan'') ''excellent''
      \<and> (\<forall>word \<in> set negative \<union> set strong_negative. \<not> contains (lower ''an Excellent plan'') word)"
    by code_simp
  have 2: "total_positive ''good idea'' > total_negative ''good idea'' \<and> strong_pos_count ''good idea'' = 0"
    by code_simp
  have 3: "total_negative ''a terrible idea'' > total_positive ''a terrible idea''
      \<and> strong_neg_count ''a terrible idea'' > 0"
    by code_simp
  have 4: "total_negative ''bad idea'' > total_positive ''bad idea'' \<and> strong_neg_count ''bad idea'' = 0"
    by code_simp
  have 5: "total_positive ''nothing to see'' = total_negative ''nothing to see''"
    by code_simp
  have 6: "\<forall>word \<in> set (strong_positive @ positive @ negative @ strong_negative).
      contains (lower ''good or bad'') word \<longleftrightarrow> word = ''good'' \<or> word = ''bad''"
    by code_simp
  note d = rule_based_sentiment_decision [THEN conjunct2, THEN conjunct2]
  note a = d [THEN conjunct1, THEN mp]
  note b = d [THEN conjunct2, THEN conjunct1, THEN mp]
  note c = d [THEN conjunct2, THEN conjunct2, THEN conjunct1, THEN mp]
  note e = d [THEN conjunct2, THEN conjunct2, THEN conjunct2, THEN conjunct1, THEN mp]
  note f = d [THEN conjunct2, THEN conjunct2, THEN conjunct2, THEN conjunct2, THEN conjunct1, THEN mp]
  note g = d [THEN conjunct2, THEN conjunct2, THEN conjunct2, THEN conjunct2, THEN conjunct2,
    THEN conjunct1, THEN mp]
  note h = d [THEN conjunct2, THEN conjunct2, THEN conjunct2, THEN conjunct2, THEN conjunct2,
    THEN conjunct2, THEN conjunct1, THEN mp]
  show ?thesis
    by (intro conjI) (rule g [OF 1] b [OF 2] c [OF 3] e [OF 4] f [OF 5] h [OF 6])+
qed

text \<open>
  C10. The rule-based scorer counts each lexicon word at most once per text: each count
  is the number of lexicon words present as raw substrings of the lowercased text,
  whatever the number of occurrences. For the input "dislike" both the negative word
  "dislike" and the positive word "like" match, the masses tie at 1, and the score is
  0.0 (not -0.5); likewise "good good bad" scores 0.0, the repeated "good" counting once.
\<close>

theorem rule_based_presence_substring:
  "strong_pos_count text = int (card {word \<in> set strong_positive. sublist word (lower text)})
   \<and> pos_count text = int (card {word \<in> set positive. sublist word (lower text)})
   \<and> neg_count text = int (card {word \<in> set negative. sublist word (lower text)})
   \<and> strong_neg_count text = int (card {word \<in> set strong_negative. sublist word (lower text)})
   \<and> contains ''dislike'' ''dislike'' \<and> contains ''dislike'' ''like''
   \<and> pos_count ''dislike'' = 1 \<and> neg_count ''dislike'' = 1
   \<and> total_positive ''dislike'' = 1 \<and> total_negative ''dislike'' = 1
   \<and> rule_based_sentiment ''dislike'' = 0.0
   \<and> rule_based_sentiment ''dislike'' \<noteq> - 0.5
   \<and> pos_count ''good good bad'' = 1
   \<and> rule_based_sentiment ''good good bad'' = 0.0"
proof -
  have counts:
    "strong_pos_count text = int (card {word \<in> set strong_positive. sublist word (lower text)})"
    "pos_count text = int (card {word \<in> set positive. sublist word (lower text)})"
    "neg_count text = int (card {word \<in> set negative. sublist word (lower text)})"
    "strong_neg_count text = int (card {word \<in> set strong_negative. sublist word (lower text)})"
    using distinct_lexicons
    by (simp_all add: strong_pos_count_def pos_count_def neg_count_def strong_neg_count_def
        count_in_card contains_def)
  have m: "contains ''dislike'' ''dislike'' \<and> contains ''dislike'' ''like''"
    by code_simp
  have c: "pos_count ''dislike'' = 1 \<and> neg_count ''dislike'' = 1"
    by code_simp
  have t: "total_positive ''dislike'' = 1 \<and> total_negative ''dislike'' = 1"
    by code_simp
  have s: "rule_based_sentiment ''dislike'' = 0.0"
    by code_simp
  then have s': "rule_based_sentiment ''dislike'' \<noteq> - 0.5"
    by simp
  have g: "pos_count ''good good bad'' = 1"
    by code_simp
  have g': "rule_based_sentiment ''good good bad'' = 0.0"
    by code_simp
  from counts m c t s s' g g' show ?thesis
    by (intro conjI) simp_all
qed

section \<open>Properties of the analyzer\<close>

lemma rule_based_sentiment_range:
  "- 1 \<le> rule_based_sentiment text \<and> rule_based_sentiment text \<le> 1"
  by (simp add: rule_based_sentiment_def)

lemma rule_based_sentiment_values:
  "rule_based_sentiment text \<in> {0.8, 0.5, - 0.8, - 0.5, 0}"
  by (simp add: rule_based_sentiment_def)

lemma rule_based_sentiment_empty: "rule_based_sentiment [] = 0"
  by code_simp

lemma sentiment_map_get_range:
  "- 1 \<le> sentiment_map_get prediction \<and> sentiment_map_get prediction \<le> 1"
  by (simp add: sentiment_map_get_def sentiment_map_def)

lemma sentiment_map_get_unknown:
  "prediction \<notin> fst ` set sentiment_map \<Longrightarrow> sentiment_map_get prediction = 0"
  by (simp add: sentiment_map_get_def map_of_eq_None_iff [THEN iffD2])

lemma ml_predict_range:
  "ml_predict mdl vec cleaned = Inr score \<Longrightarrow> - 1 \<le> score \<and> score \<le> 1"
  using sentiment_map_get_range
  by (auto simp: ml_predict_def split: sum.splits list.splits)

lemma analyze_sentiment_cases:
  "analyze_sentiment self text =
     (case (model self, vectorizer self) of
        (Some mdl, Some vec) \<Rightarrow>
          (case ml_predict mdl vec (clean_text text) of
             Inr score \<Rightarrow> score
           | Inl e \<Rightarrow> rule_based_sentiment (clean_text text))
      | _ \<Rightarrow> rule_based_sentiment (clean_text text))"
  by (simp add: analyze_sentiment_def Let_def)

text \<open>
  C5. For every input and every analyzer (classifier and vectorizer loaded, missing, or
  raising), the score returned by \<open>analyze_sentiment\<close> lies in \<open>[-1, 1]\<close>; a label outside
  the five known categories maps to 0.0, and the five categories map to their anchors.
\<close>

theorem analyze_sentiment_bounded:
  "- 1 \<le> analyze_sentiment self text \<and> analyze_sentiment self text \<le> 1
   \<and> (prediction \<notin> fst ` set sentiment_map \<longrightarrow> sentiment_map_get prediction = 0.0)
   \<and> sentiment_map_get ''strong_negative'' = - 0.9 \<and> sentiment_map_get ''negative'' = - 0.6
   \<and> sentiment_map_get ''neutral'' = 0.0 \<and> sentiment_map_get ''positive'' = 0.6
   \<and> sentiment_map_get ''strong_positive'' = 0.9"
proof -
  have range: "- 1 \<le> analyze_sentiment self text \<and> analyze_sentiment self text \<le> 1"
    using rule_based_sentiment_range [of "clean_text text"] ml_predict_range
    by (auto simp: analyze_sentiment_cases split: option.splits sum.splits)
  have unknown: "prediction \<notin> fst ` set sentiment_map \<longrightarrow> sentiment_map_get prediction = 0.0"
    using sentiment_map_get_unknown by simp
  have anchors: "sentiment_map_get ''strong_negative'' = - 0.9" "sentiment_map_get ''negative'' = - 0.6"
    "sentiment_map_get ''neutral'' = 0.0" "sentiment_map_get ''positive'' = 0.6"
    "sentiment_map_get ''strong_positive'' = 0.9"
    by (simp_all add: sentiment_map_get_def sentiment_map_def)
  from range unknown anchors show ?thesis by (intro conjI) simp_all
qed

theorem analyze_sentiment_bounded_witness:
  "''happy'' \<notin> fst ` set sentiment_map \<and> sentiment_map_get ''happy'' = 0.0
   \<and> analyze_sentiment (constant_analyzer ''happy'') (Str ''a good day'') = 0.0"
proof -
  have h: "''happy'' \<notin> fst ` set sentiment_map"
    by (simp add: sentiment_map_def)
  note u = analyze_sentiment_bounded [of _ _ "''happy''", THEN conjunct2, THEN conjunct2,
      THEN conjunct1, THEN mp, OF h]
  have "analyze_sentiment (constant_analyzer ''happy'') (Str ''a good day'') = sentiment_map_get ''happy''"
    by (simp add: analyze_sentiment_cases constant_analyzer_def ml_predict_def)
  with h u show ?thesis by simp
qed

text \<open>
  C6. If both artifacts are loaded and the vectorizer raises, or the classifier raises,
  or indexing the prediction raises, \<open>analyze_sentiment\<close> returns exactly the rule-based
  score of the same cleaned text. The function returns a score on every path: no
  exception leaves it.
\<close>

theorem ml_failure_falls_back:
  assumes "model self = Some mdl" and "vectorizer self = Some vec"
    and "(\<exists>e. vec [clean_text text] = Inl e)
       \<or> (\<exists>features e. vec [clean_text text] = Inr features \<and> mdl features = Inl e)
       \<or> (\<exists>features. vec [clean_text text] = Inr features \<and> mdl features = Inr [])"
  shows "analyze_sentiment self text = rule_based_sentiment (clean_text text)"
  using assms by (auto simp: analyze_sentiment_cases ml_predict_def)

theorem ml_failure_falls_back_witness:
  "analyze_sentiment failing_vectorizer_analyzer (Str ''An EXCELLENT plan!'') =
     rule_based_sentiment (clean_text (Str ''An EXCELLENT plan!''))
   \<and> analyze_sentiment failing_vectorizer_analyzer (Str ''An EXCELLENT plan!'') = 0.8"
proof -
  have m: "model failing_vectorizer_analyzer = Some (\<lambda>features. Inr [''positive''])"
    and v: "vectorizer failing_vectorizer_analyzer = Some (\<lambda>texts. Inl (Exn ''transform failed''))"
    by (simp_all add: failing_vectorizer_analyzer_def)
  have f: "(\<exists>e. (\<lambda>texts. Inl (Exn ''transform failed'') :: exn + string list) [clean_text (Str ''An EXCELLENT plan!'')] = Inl e)
       \<or> (\<exists>features e. (\<lambda>texts. Inl (Exn ''transform failed'')) [clean_text (Str ''An EXCELLENT plan!'')] = Inr features
            \<and> (\<lambda>features. Inr [''positive'']) features = Inl e)
       \<or> (\<exists>features. (\<lambda>texts. Inl (Exn ''transform failed'')) [clean_text (Str ''An EXCELLENT plan!'')] = Inr features
            \<and> (\<lambda>features. Inr [''positive'']) features = Inr [])"
    by simp
  have r: "rule_based_sentiment (clean_text (Str ''An EXCELLENT plan!'')) = 0.8"
    by code_simp
  from ml_failure_falls_back [OF m v f] r show ?thesis by simp
qed

text \<open>
  C7. Cleaning \<^verbatim>\<open>Check this out http://x.co @JohnDoe #economy reform!!\<close> yields exactly
  \<^verbatim>\<open>check this out johndoe economy reform\<close>; the intermediate texts are those of the
  successive steps (URL removal, mention and hashtag unwrapping, punctuation blanking,
  lowercasing and trimming, whitespace collapsing).
\<close>

theorem clean_text_scenario:
  "remove_urls ''Check this out http://x.co @JohnDoe #economy reform!!''
     = ''Check this out  @JohnDoe #economy reform!!''
   \<and> unwrap_tag (CHR ''@'') ''Check this out  @JohnDoe #economy reform!!''
     = ''Check this out  JohnDoe #economy reform!!''
   \<and> unwrap_tag (CHR ''#'') ''Check this out  JohnDoe #economy reform!!''
     = ''Check this out  JohnDoe economy reform!!''
   \<and> blank_punctuation ''Check this out  JohnDoe economy reform!!''
     = ''Check this out  JohnDoe economy reform  ''
   \<and> strip (lower ''Check this out  JohnDoe economy reform  '')
     = ''check this out  johndoe economy reform''
   \<and> collapse_spaces ''check this out  johndoe economy reform''
     = ''check this out johndoe economy reform''
   \<and> clean_text (Str ''Check this out http://x.co @JohnDoe #economy reform!!'')
     = ''check this out johndoe economy reform''"
  by (intro conjI; code_simp)

text \<open>
  C8 as stated fails: with a loaded classifier that labels the empty text
  \<open>positive\<close>, a non-string input (and the empty string) scores 0.6.
\<close>

theorem malformed_input_counterexample:
  "clean_text NoneValue = [] \<and> analyze_sentiment (constant_analyzer ''positive'') NoneValue = 0.6
   \<and> analyze_sentiment (constant_analyzer ''positive'') NoneValue \<noteq> 0.0
   \<and> analyze_sentiment (constant_analyzer ''positive'') (Str []) \<noteq> 0.0"
  by (simp add: clean_text_def clean_str_def strip_def lower_def blank_punctuation_def
      analyze_sentiment_cases constant_analyzer_def ml_predict_def
      sentiment_map_get_def sentiment_map_def)

lemma clean_text_malformed:
  "(\<forall>text. v \<noteq> Str text) \<or> v = Str [] \<Longrightarrow> clean_text v = []"
  by (cases v) (auto simp: clean_text_def clean_str_def strip_def lower_def blank_punctuation_def)

text \<open>
  C8, amended. For every non-string input and for the empty string, cleaning yields the
  empty string; the score is 0.0 whenever the rule-based scorer decides (an artifact is
  missing, or the model path raises), and otherwise it is the anchor of the label that
  the loaded classifier predicts for the empty text.
\<close>

theorem malformed_input_neutral:
  assumes "(\<forall>text. v \<noteq> Str text) \<or> v = Str []"
  shows "clean_text v = []
    \<and> (model self = None \<or> vectorizer self = None \<longrightarrow> analyze_sentiment self v = 0.0)
    \<and> (\<forall>mdl vec. model self = Some mdl \<and> vectorizer self = Some vec \<longrightarrow>
          analyze_sentiment self v = (case ml_predict mdl vec [] of Inr score \<Rightarrow> score | Inl e \<Rightarrow> 0.0))"
proof -
  have c: "clean_text v = []"
    using assms by (rule clean_text_malformed)
  have r: "model self = None \<or> vectorizer self = None \<longrightarrow> analyze_sentiment self v = 0.0"
    by (auto simp: analyze_sentiment_cases c rule_based_sentiment_empty split: option.splits)
  have m: "\<forall>mdl vec. model self = Some mdl \<and> vectorizer self = Some vec \<longrightarrow>
          analyze_sentiment self v = (case ml_predict mdl vec [] of Inr score \<Rightarrow> score | Inl e \<Rightarrow> 0.0)"
    by (auto simp: analyze_sentiment_cases c rule_based_sentiment_empty split: sum.splits)
  from c r m show ?thesis by (intro conjI)
qed

theorem malformed_input_neutral_witness:
  "clean_text (Number 3) = [] \<and> analyze_sentiment rule_based_analyzer (Number 3) = 0.0
   \<and> analyze_sentiment failing_vectorizer_analyzer (Number 3) = 0.0"
proof -
  have h: "(\<forall>text. Number 3 \<noteq> Str text) \<or> Number 3 = Str []"
    by simp
  have n: "model rule_based_analyzer = None \<or> vectorizer rule_based_analyzer = None"
    by (simp add: rule_based_analyzer_def)
  have s: "model failing_vectorizer_analyzer = Some (\<lambda>features. Inr [''positive''])
      \<and> vectorizer failing_vectorizer_analyzer = Some (\<lambda>texts. Inl (Exn ''transform failed''))"
    by (simp add: failing_vectorizer_analyzer_def)
  note t = malformed_input_neutral [OF h]
  have 1: "clean_text (Number 3) = []"
    using t [of rule_based_analyzer] by (rule conjunct1)
  have 2: "analyze_sentiment rule_based_analyzer (Number 3) = 0.0"
    using t [of rule_based_analyzer, THEN conjunct2, THEN conjunct1] n by (rule mp)
  have 3: "analyze_sentiment failing_vectorizer_analyzer (Number 3) = 0.0"
    using t [of failing_vectorizer_analyzer, THEN conjunct2, THEN conjunct2, THEN spec, THEN spec,
        THEN mp, OF s]
    by (simp add: ml_predict_def)
  from 1 2 3 show ?thesis by (intro conjI)
qed

section \<open>Properties of text cleaning\<close>

lemma lower_char_id: "c \<notin> set ascii_uppercase \<Longrightarrow> lower_char c = c"
proof -
  assume "c \<notin> set ascii_uppercase"
  moreover have "length ascii_uppercase = length ascii_lowercase"
    by (simp add: ascii_uppercase_def ascii_lowercase_def)
  ultimately have "map_of (zip ascii_uppercase ascii_lowercase) c = None"
    by (simp add: map_of_zip_is_None)
  then show ?thesis by (simp add: lower_char_def)
qed

lemma lower_char_upper: "c \<in> set ascii_uppercase \<Longrightarrow> lower_char c \<in> set ascii_lowercase"
proof -
  assume "c \<in> set ascii_uppercase"
  then have "c \<in> set ''ABCDEFGHIJKLMNOPQRSTUVWXYZ''"
    by (simp only: ascii_uppercase_def)
  then show ?thesis
    unfolding set_simps insert_iff empty_iff
    by (elim disjE FalseE) (simp_all add: lower_char_def ascii_uppercase_def ascii_lowercase_def)
qed

lemma lowercase_not_uppercase: "c \<in> set ascii_lowercase \<Longrightarrow> c \<notin> set ascii_uppercase"
proof -
  have "set ascii_lowercase \<inter> set ascii_uppercase = {}"
    by (simp add: ascii_uppercase_def ascii_lowercase_def)
  then show "c \<in> set ascii_lowercase \<Longrightarrow> c \<notin> set ascii_uppercase" by blast
qed

lemma space_not_uppercase: "is_space c \<Longrightarrow> c \<notin> set ascii_uppercase"
proof -
  have "set whitespace \<inter> set ascii_uppercase = {}"
    by (simp add: ascii_uppercase_def whitespace_def)
  then show "is_space c \<Longrightarrow> c \<notin> set ascii_uppercase"
    unfolding is_space_def by blast
qed

lemma quote_not_uppercase: "CHR 0x27 \<notin> set ascii_uppercase"
  by (simp add: ascii_uppercase_def)

lemma lower_char_idem: "lower_char (lower_char c) = lower_char c"
proof (cases "c \<in> set ascii_uppercase")
  case True
  then show ?thesis
    by (intro lower_char_id lowercase_not_uppercase lower_char_upper)
next
  case False
  then show ?thesis by (simp add: lower_char_id)
qed

lemma lower_char_word: "is_word c \<Longrightarrow> is_word (lower_char c)"
proof (cases "c \<in> set ascii_uppercase")
  case True
  then show ?thesis by (simp add: is_word_def lower_char_upper)
next
  case False
  then show "is_word c \<Longrightarrow> ?thesis" by (simp add: lower_char_id)
qed

lemma clean_char_lower: "clean_char c \<Longrightarrow> clean_char (lower_char c)"
  unfolding clean_char_def
  using lower_char_word [of c] space_not_uppercase [of c] quote_not_uppercase
  by (auto simp: lower_char_id)

lemma norm_char_lower: "clean_char c \<Longrightarrow> norm_char (lower_char c)"
  by (simp add: norm_char_def clean_char_lower lower_char_idem)

lemma norm_char_blank: "norm_char (CHR '' '')"
  by (simp add: norm_char_def clean_char_def is_space_def whitespace_def lower_char_def
      ascii_uppercase_def ascii_lowercase_def)

lemma marker_not_clean: "\<not> clean_char (CHR ''@'')" "\<not> clean_char (CHR ''#'')"
  by (simp_all add: clean_char_def is_word_def is_space_def whitespace_def
      ascii_uppercase_def ascii_lowercase_def digits_def)

lemma norm_char_not_marker: "norm_char c \<Longrightarrow> c \<noteq> CHR ''@'' \<and> c \<noteq> CHR ''#''"
  using marker_not_clean by (auto simp: norm_char_def)

subsection \<open>remove_urls\<close>

lemma remove_urls_length: "length (remove_urls text) \<le> length text"
proof (induction "text" rule: remove_urls.induct)
  case 1
  show ?case by simp
next
  case (2 c cs)
  show ?case
  proof (cases "url_at (c # cs)")
    case True
    have "length (remove_urls (dropWhile (\<lambda>d. \<not> is_space d) (drop 4 (c # cs))))
        \<le> length (dropWhile (\<lambda>d. \<not> is_space d) (drop 4 (c # cs)))"
      using 2 True by simp
    also have "\<dots> \<le> length (drop 4 (c # cs))"
      by (rule length_dropWhile_le)
    also have "\<dots> \<le> length (c # cs)"
      by simp
    finally show ?thesis using True by simp
  next
    case False
    then show ?thesis using 2 by simp
  qed
qed

lemma remove_urls_shorter: "has_url text \<Longrightarrow> length (remove_urls text) < length text"
proof (induction "text")
  case Nil
  then show ?case by simp
next
  case (Cons c cs)
  show ?case
  proof (cases "url_at (c # cs)")
    case True
    have "length (remove_urls (dropWhile (\<lambda>d. \<not> is_space d) (drop 4 (c # cs))))
        \<le> length (dropWhile (\<lambda>d. \<not> is_space d) (drop 4 (c # cs)))"
      by (rule remove_urls_length)
    also have "\<dots> \<le> length (drop 4 (c # cs))"
      by (rule length_dropWhile_le)
    also have "\<dots> < length (c # cs)"
      by simp
    finally show ?thesis using True by simp
  next
    case False
    with Cons show ?thesis by simp
  qed
qed

lemma remove_urls_id: "\<not> has_url text \<Longrightarrow> remove_urls text = text"
  by (induction "text") simp_all

subsection \<open>unwrap_tag\<close>

lemma unwrap_tag_length: "length (unwrap_tag m text) \<le> length text"
proof (induction m "text" rule: unwrap_tag.induct)
  case (1 m)
  show ?case by simp
next
  case (2 m c cs)
  show ?case
  proof (cases "c = m \<and> (case cs of [] \<Rightarrow> False | d # _ \<Rightarrow> is_word d)")
    case True
    then have "length (unwrap_tag m (dropWhile is_word cs)) \<le> length (dropWhile is_word cs)"
      using 2 by simp
    moreover have "length (takeWhile is_word cs) + length (dropWhile is_word cs) = length cs"
      by (metis length_append takeWhile_dropWhile_id)
    ultimately show ?thesis using True by simp
  next
    case False
    then show ?thesis using 2 by auto
  qed
qed

lemma unwrap_tag_id: "m \<notin> set text \<Longrightarrow> unwrap_tag m text = text"
  by (induction "text") auto

subsection \<open>blank_punctuation and lower\<close>

lemma blank_punctuation_clean: "\<forall>c \<in> set (blank_punctuation text). clean_char c"
  by (auto simp: blank_punctuation_def clean_char_def is_space_def whitespace_def)

lemma blank_punctuation_id: "\<forall>c \<in> set text. clean_char c \<Longrightarrow> blank_punctuation text = text"
  by (auto simp: blank_punctuation_def clean_char_def intro: map_idI)

lemma lower_norm: "\<forall>c \<in> set text. clean_char c \<Longrightarrow> \<forall>c \<in> set (lower text). norm_char c"
  by (auto simp: lower_def norm_char_lower)

lemma lower_id: "\<forall>c \<in> set text. norm_char c \<Longrightarrow> lower text = text"
  by (auto simp: lower_def norm_char_def intro: map_idI)

subsection \<open>strip\<close>

lemma set_strip: "set (strip text) \<subseteq> set text"
  by (auto simp: strip_def dest!: set_dropWhileD)

lemma strip_length: "length (strip text) \<le> length text"
proof -
  have "length (strip text) \<le> length (dropWhile is_space text)"
    unfolding strip_def using length_dropWhile_le [of is_space "rev (dropWhile is_space text)"]
    by simp
  also have "\<dots> \<le> length text" by (rule length_dropWhile_le)
  finally show ?thesis .
qed

lemma dropWhile_id: "xs = [] \<or> \<not> P (hd xs) \<Longrightarrow> dropWhile P xs = xs"
  by (cases xs) auto

lemma strip_id: "trimmed text \<Longrightarrow> strip text = text"
proof -
  assume t: "trimmed text"
  then have 1: "dropWhile is_space text = text"
    by (intro dropWhile_id) (auto simp: trimmed_def)
  from t have "rev text = [] \<or> \<not> is_space (hd (rev text))"
    by (auto simp: trimmed_def hd_rev)
  then have 2: "dropWhile is_space (rev text) = rev text"
    by (rule dropWhile_id)
  show ?thesis by (simp add: strip_def 1 2)
qed

lemma trimmed_strip: "trimmed (strip text)"
proof -
  define a where "a = dropWhile is_space text"
  define b where "b = dropWhile is_space (rev a)"
  have s: "strip text = rev b"
    by (simp add: strip_def a_def b_def)
  have ha: "a = [] \<or> \<not> is_space (hd a)"
    unfolding a_def using hd_dropWhile [of is_space "text"] by blast
  have hb: "b = [] \<or> \<not> is_space (hd b)"
    unfolding b_def using hd_dropWhile [of is_space "rev a"] by blast
  have ab: "rev a = takeWhile is_space (rev a) @ b"
    unfolding b_def by simp
  show ?thesis
  proof (cases "b = []")
    case True
    then show ?thesis by (simp add: trimmed_def s)
  next
    case False
    with hb have l: "\<not> is_space (last (rev b))"
      by (simp add: last_rev)
    from ab have "rev (rev a) = rev (takeWhile is_space (rev a) @ b)"
      by simp
    then have a: "a = rev b @ rev (takeWhile is_space (rev a))"
      by (simp only: rev_rev_ident rev_append)
    with False have "a \<noteq> []" and "hd a = hd (rev b)"
      by (metis Nil_is_append_conv rev_is_Nil_conv, metis hd_append2 rev_is_Nil_conv)
    with ha have "\<not> is_space (hd (rev b))"
      by simp
    with l False show ?thesis
      by (simp add: trimmed_def s)
  qed
qed

subsection \<open>collapse_spaces\<close>

lemma is_space_blank: "is_space (CHR '' '')"
  by (simp add: is_space_def whitespace_def)

lemma collapse_spaces_length: "length (collapse_spaces xs) \<le> length xs"
proof (induction xs rule: collapse_spaces.induct)
  case 1
  show ?case by simp
next
  case (2 c cs)
  show ?case
  proof (cases "is_space c")
    case True
    then have "length (collapse_spaces (dropWhile is_space cs)) \<le> length (dropWhile is_space cs)"
      using 2 by simp
    also have "\<dots> \<le> length cs" by (rule length_dropWhile_le)
    finally show ?thesis using True by simp
  next
    case False
    then show ?thesis using 2 by simp
  qed
qed

lemma collapse_spaces_chars:
  "c \<in> set (collapse_spaces xs) \<Longrightarrow> c = CHR '' '' \<or> c \<in> set xs"
proof (induction xs rule: collapse_spaces.induct)
  case 1
  then show ?case by simp
next
  case (2 d ds)
  then show ?case
    by (cases "is_space d") (auto dest: set_dropWhileD)
qed

lemma collapse_spaces_Nil: "collapse_spaces xs = [] \<longleftrightarrow> xs = []"
  by (cases xs) simp_all

lemma collapse_spaces_hd:
  "xs \<noteq> [] \<Longrightarrow> \<not> is_space (hd xs) \<Longrightarrow> hd (collapse_spaces xs) = hd xs"
  by (cases xs) simp_all

lemma dropWhile_last:
  "xs \<noteq> [] \<Longrightarrow> \<not> P (last xs) \<Longrightarrow> dropWhile P xs \<noteq> [] \<and> last (dropWhile P xs) = last xs"
  by (induction xs) (auto split: if_splits)

lemma collapse_spaces_last:
  "xs \<noteq> [] \<Longrightarrow> \<not> is_space (last xs) \<Longrightarrow> last (collapse_spaces xs) = last xs"
proof (induction xs rule: collapse_spaces.induct)
  case 1
  then show ?case by simp
next
  case (2 c cs)
  show ?case
  proof (cases "is_space c")
    case True
    with 2(4) have cs: "cs \<noteq> []" "\<not> is_space (last cs)"
      by (auto split: if_splits)
    define d where "d = dropWhile is_space cs"
    from cs have d: "d \<noteq> []" "last d = last cs"
      unfolding d_def using dropWhile_last [of cs is_space] by blast+
    with cs have "\<not> is_space (last d)" by simp
    with 2(1) True d have "last (collapse_spaces d) = last d"
      unfolding d_def by blast
    moreover have "collapse_spaces d \<noteq> []"
      using d by (simp add: collapse_spaces_Nil)
    ultimately show ?thesis
      using True d cs by (simp add: d_def)
  next
    case False
    show ?thesis
    proof (cases "cs = []")
      case True
      with False show ?thesis by simp
    next
      case ne: False
      with 2(4) have "\<not> is_space (last cs)" by simp
      with 2(2) False ne have "last (collapse_spaces cs) = last cs" by blast
      with False ne show ?thesis by (simp add: collapse_spaces_Nil)
    qed
  qed
qed

lemma trimmed_collapse_spaces: "trimmed xs \<Longrightarrow> trimmed (collapse_spaces xs)"
  unfolding trimmed_def
  by (auto simp: collapse_spaces_Nil collapse_spaces_hd collapse_spaces_last)

lemma collapse_spaces_idem: "collapse_spaces (collapse_spaces xs) = collapse_spaces xs"
proof (induction xs rule: collapse_spaces.induct)
  case 1
  show ?case by simp
next
  case (2 c cs)
  show ?case
  proof (cases "is_space c")
    case True
    define d where "d = dropWhile is_space cs"
    have hd: "d = [] \<or> \<not> is_space (hd d)"
      unfolding d_def using hd_dropWhile [of is_space cs] by blast
    then have "collapse_spaces d = [] \<or> \<not> is_space (hd (collapse_spaces d))"
      by (auto simp: collapse_spaces_Nil collapse_spaces_hd)
    then have "dropWhile is_space (collapse_spaces d) = collapse_spaces d"
      by (rule dropWhile_id)
    moreover have "collapse_spaces (collapse_spaces d) = collapse_spaces d"
      using 2(1) True by (simp add: d_def)
    ultimately show ?thesis
      using True by (simp add: d_def [symmetric] is_space_blank)
  next
    case False
    then show ?thesis using 2 by simp
  qed
qed

subsection \<open>The whole pipeline\<close>

lemma clean_str_eq:
  "clean_str t = collapse_spaces (strip (lower (blank_punctuation
     (unwrap_tag (CHR ''#'') (unwrap_tag (CHR ''@'') (remove_urls t))))))"
  by (simp add: clean_str_def Let_def)

lemma clean_str_norm: "\<forall>c \<in> set (clean_str t). norm_char c"
proof
  fix c assume "c \<in> set (clean_str t)"
  then consider "c = CHR '' ''"
    | "c \<in> set (strip (lower (blank_punctuation
         (unwrap_tag (CHR ''#'') (unwrap_tag (CHR ''@'') (remove_urls t))))))"
    unfolding clean_str_eq using collapse_spaces_chars by blast
  then show "norm_char c"
  proof cases
    case 1
    then show ?thesis by (simp add: norm_char_blank)
  next
    case 2
    then have "c \<in> set (lower (blank_punctuation
         (unwrap_tag (CHR ''#'') (unwrap_tag (CHR ''@'') (remove_urls t)))))"
      using set_strip by blast
    then show ?thesis
      using lower_norm [OF blank_punctuation_clean] by blast
  qed
qed

lemma clean_str_trimmed: "trimmed (clean_str t)"
  unfolding clean_str_eq by (intro trimmed_collapse_spaces trimmed_strip)

lemma clean_str_collapsed: "collapse_spaces (clean_str t) = clean_str t"
  unfolding clean_str_eq by (rule collapse_spaces_idem)

lemma clean_str_after_urls:
  "collapse_spaces (strip (lower (blank_punctuation
     (unwrap_tag (CHR ''#'') (unwrap_tag (CHR ''@'') (clean_str t)))))) = clean_str t"
proof -
  have n: "\<forall>c \<in> set (clean_str t). norm_char c"
    by (rule clean_str_norm)
  then have "CHR ''@'' \<notin> set (clean_str t)" "CHR ''#'' \<notin> set (clean_str t)"
    using norm_char_not_marker by blast+
  then have 1: "unwrap_tag (CHR ''#'') (unwrap_tag (CHR ''@'') (clean_str t)) = clean_str t"
    by (simp add: unwrap_tag_id)
  from n have 2: "blank_punctuation (clean_str t) = clean_str t"
    by (intro blank_punctuation_id) (simp add: norm_char_def)
  from n have 3: "lower (clean_str t) = clean_str t"
    by (rule lower_id)
  have 4: "strip (clean_str t) = clean_str t"
    by (intro strip_id clean_str_trimmed)
  show ?thesis
    by (simp only: 1 2 3 4 clean_str_collapsed)
qed

lemma clean_str_length: "length (clean_str t) \<le> length (remove_urls t)"
proof -
  have "length (clean_str t) \<le> length (strip (lower (blank_punctuation
     (unwrap_tag (CHR ''#'') (unwrap_tag (CHR ''@'') (remove_urls t))))))"
    unfolding clean_str_eq by (rule collapse_spaces_length)
  also have "\<dots> \<le> length (lower (blank_punctuation
     (unwrap_tag (CHR ''#'') (unwrap_tag (CHR ''@'') (remove_urls t)))))"
    by (rule strip_length)
  also have "\<dots> = length (unwrap_tag (CHR ''#'') (unwrap_tag (CHR ''@'') (remove_urls t)))"
    by (simp add: lower_def blank_punctuation_def)
  also have "\<dots> \<le> length (unwrap_tag (CHR ''@'') (remove_urls t))"
    by (rule unwrap_tag_length)
  also have "\<dots> \<le> length (remove_urls t)"
    by (rule unwrap_tag_length)
  finally show ?thesis .
qed

lemma clean_str_idem_iff:
  "clean_str (clean_str t) = clean_str t \<longleftrightarrow> \<not> has_url (clean_str t)"
proof
  assume eq: "clean_str (clean_str t) = clean_str t"
  show "\<not> has_url (clean_str t)"
  proof
    assume "has_url (clean_str t)"
    then have "length (remove_urls (clean_str t)) < length (clean_str t)"
      by (rule remove_urls_shorter)
    with clean_str_length [of "clean_str t"] eq show False by simp
  qed
next
  assume "\<not> has_url (clean_str t)"
  then have "remove_urls (clean_str t) = clean_str t"
    by (rule remove_urls_id)
  then show "clean_str (clean_str t) = clean_str t"
    using clean_str_after_urls [of t] by (simp add: clean_str_eq [of "clean_str t"])
qed

text \<open>
  C4 as stated fails: the URL pattern is case-sensitive and runs before lowercasing, so
  \<^verbatim>\<open>HTTPS\<close> is cleaned to \<^verbatim>\<open>https\<close>, which a second cleaning removes as a URL.
\<close>

theorem clean_text_idempotent_counterexample:
  "clean_text (Str ''HTTPS'') = ''https''
   \<and> clean_text (Str (clean_text (Str ''HTTPS''))) = []
   \<and> clean_text (Str (clean_text (Str ''HTTPS''))) \<noteq> clean_text (Str ''HTTPS'')"
  by (intro conjI; code_simp)

text \<open>
  C4, amended. For every ASCII string \<open>t\<close>, cleaning the cleaned text gives the cleaned
  text again exactly when the cleaned text has no match of \<^verbatim>\<open>http\S+\<close>, that is no
  \<open>http\<close> directly followed by a non-whitespace character.
\<close>

theorem clean_text_idempotent_iff:
  assumes "ascii_text t"
  shows "clean_text (Str (clean_text (Str t))) = clean_text (Str t)
     \<longleftrightarrow> \<not> has_url (clean_text (Str t))"
  using clean_str_idem_iff [of t] by (simp add: clean_text_def)

theorem clean_text_idempotent_iff_witness:
  "ascii_text ''Check this out http://x.co @JohnDoe #economy reform!!''
   \<and> \<not> has_url (clean_text (Str ''Check this out http://x.co @JohnDoe #economy reform!!''))
   \<and> clean_text (Str (clean_text (Str ''Check this out http://x.co @JohnDoe #economy reform!!'')))
       = clean_text (Str ''Check this out http://x.co @JohnDoe #economy reform!!'')"
proof -
  have a: "ascii_text ''Check this out http://x.co @JohnDoe #economy reform!!''"
    by code_simp
  have n: "\<not> has_url (clean_text (Str ''Check this out http://x.co @JohnDoe #economy reform!!''))"
    by code_simp
  from clean_text_idempotent_iff [OF a, THEN iffD2, OF n] a n show ?thesis
    by (intro conjI)
qed

section \<open>Properties of the binary64 model\<close>

lemma bit_length_pos:
  "0 < n \<Longrightarrow> 1 \<le> bit_length n \<and> 2 ^ nat (bit_length n - 1) \<le> n \<and> n < 2 ^ nat (bit_length n)"
proof (induction n rule: bit_length.induct)
  case (1 n)
  show ?case
  proof (cases "n div 2 = 0")
    case True
    with 1(2) have "n = 1" by linarith
    then show ?thesis
      by (simp add: bit_length.simps [of 1] bit_length.simps [of 0])
  next
    case False
    with 1(2) have h: "0 < n div 2" by linarith
    define L where "L = bit_length (n div 2)"
    from 1(1) 1(2) h have ih: "1 \<le> L" "2 ^ nat (L - 1) \<le> n div 2" "n div 2 < 2 ^ nat L"
      unfolding L_def by simp_all
    have bl: "bit_length n = L + 1"
      using 1(2) by (simp add: bit_length.simps [of n] L_def)
    have "nat L = Suc (nat (L - 1))" "nat (L + 1) = Suc (nat L)"
      using ih(1) by linarith+
    then have p: "(2::int) ^ nat L = 2 * 2 ^ nat (L - 1)" "(2::int) ^ nat (L + 1) = 2 * 2 ^ nat L"
      by (simp_all only: power_Suc)
    have "2 ^ nat L \<le> n"
      using ih(2) p(1) by linarith
    moreover have "n < 2 ^ nat (L + 1)"
      using ih(3) p(2) by linarith
    ultimately show ?thesis
      using ih(1) by (simp add: bl)
  qed
qed

lemma powi_nonneg: "0 \<le> e \<Longrightarrow> (2::real) powi e = 2 ^ nat e"
  by (simp add: power_int_def)

lemma powi_neg: "e \<le> 0 \<Longrightarrow> (2::real) powi e = 1 / 2 ^ nat (- e)"
  by (simp add: power_int_def inverse_eq_divide power_one_over)

lemma binade_bounds:
  assumes "x \<noteq> 0"
  shows "2 powi binade x \<le> \<bar>x\<bar> \<and> \<bar>x\<bar> < 2 powi (binade x + 1)"
proof (cases "1 \<le> \<bar>x\<bar>")
  case True
  define n where "n = \<lfloor>\<bar>x\<bar>\<rfloor>"
  define L where "L = bit_length n"
  have n: "0 < n" "real_of_int n \<le> \<bar>x\<bar>" "\<bar>x\<bar> < real_of_int n + 1"
    using True unfolding n_def by linarith+
  from bit_length_pos [OF n(1)]
  have b: "1 \<le> L" "2 ^ nat (L - 1) \<le> n" "n < 2 ^ nat L"
    unfolding L_def by simp_all
  have e: "binade x = L - 1"
    using True by (simp add: binade_def n_def L_def)
  have "real_of_int (2 ^ nat (L - 1)) \<le> real_of_int n"
    using b(2) by (simp only: of_int_le_iff)
  then have "(2::real) ^ nat (L - 1) \<le> real_of_int n"
    by (simp only: of_int_power of_int_numeral)
  with n(2) have "(2::real) ^ nat (L - 1) \<le> \<bar>x\<bar>"
    by linarith
  then have lo: "2 powi (L - 1) \<le> \<bar>x\<bar>"
    using b(1) powi_nonneg [of "L - 1"] by simp
  have "n + 1 \<le> 2 ^ nat L"
    using b(3) by linarith
  then have "real_of_int (n + 1) \<le> real_of_int (2 ^ nat L)"
    by (simp only: of_int_le_iff)
  then have "real_of_int n + 1 \<le> (2::real) ^ nat L"
    by (simp only: of_int_power of_int_numeral of_int_add of_int_1)
  with n(3) have "\<bar>x\<bar> < (2::real) ^ nat L"
    by linarith
  then have hi: "\<bar>x\<bar> < 2 powi L"
    using b(1) powi_nonneg [of L] by simp
  from lo hi show ?thesis
    by (simp add: e)
next
  case False
  define y where "y = 1 / \<bar>x\<bar>"
  define m where "m = \<lceil>y\<rceil> - 1"
  define L where "L = bit_length m"
  have x: "0 < \<bar>x\<bar>" "\<bar>x\<bar> < 1"
    using assms False by simp_all
  then have y: "1 < y"
    unfolding y_def by simp
  have m: "0 < m" "real_of_int m < y" "y \<le> real_of_int m + 1"
    using y unfolding m_def by linarith+
  from bit_length_pos [OF m(1)]
  have b: "1 \<le> L" "2 ^ nat (L - 1) \<le> m" "m < 2 ^ nat L"
    unfolding L_def by simp_all
  have e: "binade x = - L"
    using False by (simp add: binade_def y_def m_def L_def)
  have "real_of_int (2 ^ nat (L - 1)) \<le> real_of_int m"
    using b(2) by (simp only: of_int_le_iff)
  then have "(2::real) ^ nat (L - 1) \<le> real_of_int m"
    by (simp only: of_int_power of_int_numeral)
  with m(2) have ylo: "2 ^ nat (L - 1) < y"
    by linarith
  have "m + 1 \<le> 2 ^ nat L"
    using b(3) by linarith
  then have "real_of_int (m + 1) \<le> real_of_int (2 ^ nat L)"
    by (simp only: of_int_le_iff)
  then have "real_of_int m + 1 \<le> (2::real) ^ nat L"
    by (simp only: of_int_power of_int_numeral of_int_add of_int_1)
  with m(3) have yhi: "y \<le> 2 ^ nat L"
    by linarith
  have xy: "\<bar>x\<bar> = 1 / y"
    using x by (simp add: y_def)
  have lo: "2 powi (- L) \<le> \<bar>x\<bar>"
  proof -
    have "1 / 2 ^ nat L \<le> 1 / y"
      using yhi y by (intro divide_left_mono) simp_all
    then show ?thesis
      using b(1) by (simp add: powi_neg xy)
  qed
  have hi: "\<bar>x\<bar> < 2 powi (- L + 1)"
  proof -
    have "1 / y < 1 / 2 ^ nat (L - 1)"
      using ylo y by (intro divide_strict_left_mono) simp_all
    moreover have "(2::real) powi (- L + 1) = 1 / 2 ^ nat (L - 1)"
      using b(1) powi_neg [of "- L + 1"] by simp
    ultimately show ?thesis
      by (simp add: xy)
  qed
  from lo hi show ?thesis
    by (simp add: e)
qed

lemma round_half_even_near: "\<bar>real_of_int (round_half_even x) - x\<bar> \<le> 1 / 2"
proof -
  have "real_of_int \<lfloor>x\<rfloor> \<le> x" "x < real_of_int \<lfloor>x\<rfloor> + 1"
    by linarith+
  then show ?thesis
    unfolding round_half_even_def Let_def by (simp split: if_splits)
qed

lemma rn_quotient_bounds:
  assumes a: "0 < a" "a < 2 ^ 53" and b: "0 < b" "b < 2 ^ 53"
  shows "real_of_int (a div b) \<le> rn (real_of_int a / real_of_int b)
       \<and> rn (real_of_int a / real_of_int b) < real_of_int (a div b) + 1"
proof -
  define x where "x = real_of_int a / real_of_int b"
  define e where "e = binade x"
  define k where "k = a div b"
  define r where "r = a mod b"
  have ra: "0 < real_of_int a" "real_of_int a < 2 ^ 53"
    and rb: "1 \<le> real_of_int b" "real_of_int b < 2 ^ 53"
    using a b by simp_all
  have xpos: "0 < x"
    unfolding x_def using ra rb by simp
  then have ax: "\<bar>x\<bar> = x" and x0: "x \<noteq> 0"
    by simp_all
  have xb: "x * real_of_int b = real_of_int a"
    unfolding x_def using rb by simp
  have xle: "x \<le> real_of_int a"
  proof -
    have "x * 1 \<le> x * real_of_int b"
      using xpos rb by (intro mult_left_mono) simp_all
    then show ?thesis using xb by simp
  qed
  have xge: "1 / 2 ^ 53 < x"
  proof -
    have "1 \<le> real_of_int a"
      using a by simp
    then have "1 / real_of_int b \<le> x"
      unfolding x_def using rb by (intro divide_right_mono) simp_all
    moreover have "1 / 2 ^ 53 < 1 / real_of_int b"
      using rb by (intro divide_strict_left_mono) simp_all
    ultimately show ?thesis by linarith
  qed
  from binade_bounds [OF x0]
  have lo: "2 powi e \<le> x" and hi: "x < 2 powi (e + 1)"
    unfolding e_def ax by simp_all
  have e_le: "e \<le> 52"
  proof (rule ccontr)
    assume "\<not> e \<le> 52"
    then have "(2::real) powi 53 \<le> 2 powi e"
      by (intro power_int_increasing) simp_all
    with lo xle ra show False by simp
  qed
  have e_ge: "- 53 \<le> e"
  proof (rule ccontr)
    assume "\<not> - 53 \<le> e"
    then have "(2::real) powi (e + 1) \<le> 2 powi (- 53)"
      by (intro power_int_increasing) simp_all
    with hi xge show False by (simp add: power_int_minus_divide)
  qed
  define Q where "Q = (2::int) ^ nat (52 - e)"
  define Qr where "Qr = real_of_int Q"
  have Qr: "Qr = 2 ^ nat (52 - e)" "0 < Qr"
    unfolding Qr_def Q_def by simp_all
  have q: "quantum x = 1 / Qr"
  proof -
    have "max (binade x) (- 1022) - 52 = e - 52"
      using e_ge by (simp add: e_def)
    moreover have "(2::real) powi (e - 52) = 1 / 2 ^ nat (- (e - 52))"
      using e_le by (intro powi_neg) simp
    ultimately show ?thesis
      by (simp add: quantum_def Qr)
  qed
  have pe: "2 powi e * Qr = 2 ^ 52"
  proof -
    have "(2::real) powi (e + (52 - e)) = 2 powi e * 2 powi (52 - e)"
      by (rule power_int_add) simp
    moreover have "e + (52 - e) = 52"
      by simp
    moreover have "(2::real) powi (52 - e) = 2 ^ nat (52 - e)"
      using e_le by (intro powi_nonneg) simp
    ultimately have "2 powi e * Qr = 2 powi 52"
      by (simp only: Qr(1))
    then show ?thesis by simp
  qed
  have bQ: "real_of_int b < 2 * Qr"
  proof -
    have "real_of_int b * 2 powi e \<le> real_of_int b * x"
      using lo rb by (intro mult_left_mono) simp_all
    also have "\<dots> = real_of_int a"
      using xb by (simp add: mult.commute)
    finally have "real_of_int b * 2 powi e < 2 ^ 53"
      using ra by simp
    then have "real_of_int b * 2 powi e * Qr < 2 ^ 53 * Qr"
      using Qr(2) by simp
    then have "real_of_int b * 2 ^ 52 < 2 ^ 53 * Qr"
      using pe by (simp add: mult.assoc)
    then show ?thesis by simp
  qed
  have kr: "a = k * b + r" "0 \<le> r" "r < b"
    using b by (simp_all add: k_def r_def)
  then have xk: "x * real_of_int b = real_of_int k * real_of_int b + real_of_int r"
    unfolding xb by (metis of_int_add of_int_mult)
  have xk_lo: "real_of_int k \<le> x"
  proof -
    have "real_of_int k * real_of_int b \<le> x * real_of_int b"
      using xk kr(2) by simp
    then show ?thesis using rb by simp
  qed
  have xk_hi: "x + 1 / real_of_int b \<le> real_of_int k + 1"
  proof -
    have "real_of_int r + 1 \<le> real_of_int b"
      using kr(3) by linarith
    then have "x * real_of_int b + 1 \<le> (real_of_int k + 1) * real_of_int b"
      using xk by (simp add: algebra_simps)
    then have "(x + 1 / real_of_int b) * real_of_int b \<le> (real_of_int k + 1) * real_of_int b"
      using rb by (simp add: algebra_simps)
    then show ?thesis using rb by simp
  qed
  define t where "t = x * Qr"
  define m where "m = round_half_even t"
  have near: "\<bar>real_of_int m - t\<bar> \<le> 1 / 2"
    unfolding m_def by (rule round_half_even_near)
  have t_lo: "real_of_int (k * Q) \<le> t"
    unfolding t_def using xk_lo Qr(2) by (simp add: Qr_def)
  have half: "1 / 2 < Qr / real_of_int b"
    using bQ rb by (simp add: field_simps)
  have t_hi: "t + 1 / 2 < real_of_int ((k + 1) * Q)"
  proof -
    have "(x + 1 / real_of_int b) * Qr \<le> (real_of_int k + 1) * Qr"
      using xk_hi Qr(2) by (intro mult_right_mono) simp_all
    then have "t + Qr / real_of_int b \<le> (real_of_int k + 1) * Qr"
      by (simp add: t_def algebra_simps)
    with half have "t + 1 / 2 < (real_of_int k + 1) * Qr"
      by linarith
    then show ?thesis
      by (simp only: Qr_def of_int_mult of_int_add of_int_1)
  qed
  have m_lo: "k * Q \<le> m"
  proof -
    have "real_of_int (k * Q) - 1 < real_of_int m"
      using near t_lo by linarith
    then show ?thesis by linarith
  qed
  have m_hi: "m < (k + 1) * Q"
  proof -
    have "real_of_int m < real_of_int ((k + 1) * Q)"
      using near t_hi by linarith
    then show ?thesis by linarith
  qed
  have rn: "rn x = real_of_int m / Qr"
    using x0 by (simp add: rn_def q m_def t_def)
  have "real_of_int k * Qr \<le> real_of_int m"
    using m_lo unfolding Qr_def by (metis of_int_le_iff of_int_mult)
  then have 1: "real_of_int k \<le> rn x"
    unfolding rn using Qr(2) by (simp add: field_simps)
  have "real_of_int m < (real_of_int k + 1) * Qr"
    using m_hi unfolding Qr_def by (metis of_int_less_iff of_int_mult of_int_add of_int_1)
  then have 2: "rn x < real_of_int k + 1"
    unfolding rn using Qr(2) by (simp add: field_simps)
  from 1 2 show ?thesis
    unfolding x_def k_def by simp
qed

lemma true_div_floor:
  assumes "0 \<le> a" "a < 2 ^ 53" "0 < b" "b < 2 ^ 53"
  shows "\<exists>y. true_div a b = Inr y \<and> py_int y = a div b"
proof (cases "a = 0")
  case True
  then show ?thesis
    using assms(3) by (simp add: true_div_def rn_def py_int_def)
next
  case False
  with assms(1) have a: "0 < a" by simp
  define y where "y = rn (real_of_int a / real_of_int b)"
  from rn_quotient_bounds [OF a assms(2) assms(3) assms(4)]
  have lo: "real_of_int (a div b) \<le> y" and hi: "y < real_of_int (a div b) + 1"
    unfolding y_def by simp_all
  have k: "0 \<le> a div b"
    using a assms(3) by (simp add: pos_imp_zdiv_nonneg_iff)
  have "a div b \<le> a div 1"
    using a assms(3) by (intro zdiv_mono2) simp_all
  then have k2: "a div b \<le> a"
    by simp
  have y0: "0 \<le> y"
    using lo k by linarith
  have "y < real_of_int a + 1"
    using hi k2 by linarith
  also have "\<dots> \<le> 2 ^ 53"
  proof -
    have "a + 1 \<le> 2 ^ 53" using assms(2) by linarith
    then have "real_of_int (a + 1) \<le> real_of_int (2 ^ 53)"
      by (simp only: of_int_le_iff)
    then show ?thesis by simp
  qed
  also have "(2::real) ^ 53 \<le> 2 ^ 1024"
    by (intro power_increasing) simp_all
  finally have small: "\<not> 2 ^ 1024 \<le> \<bar>y\<bar>"
    using y0 by simp
  have t: "true_div a b = Inr y"
    using assms(3) small by (simp add: true_div_def y_def [symmetric] Let_def)
  have "\<lfloor>y\<rfloor> = a div b"
    using lo hi by linarith
  then have "py_int y = a div b"
    using y0 by (simp add: py_int_def)
  with t show ?thesis by blast
qed

lemma int_average_floor:
  assumes "xs \<noteq> []" "0 \<le> sum_list xs" "sum_list xs < 2 ^ 53" "int (length xs) < 2 ^ 53"
  shows "int_average xs = Inr (sum_list xs div int (length xs))"
proof -
  have "0 < int (length xs)"
    using assms(1) by simp
  from true_div_floor [OF assms(2) assms(3) this assms(4)]
  obtain y where "true_div (sum_list xs) (int (length xs)) = Inr y"
    "py_int y = sum_list xs div int (length xs)"
    by blast
  then show ?thesis
    using assms(1) by (simp add: int_average_def)
qed

lemma mean_floor: "\<lfloor>mean xs\<rfloor> = sum_list xs div int (length xs)"
proof -
  have "mean xs = real_of_int (sum_list xs) / real_of_int (int (length xs))"
    by (simp add: mean_def)
  then show ?thesis
    by (simp only: floor_divide_of_int_eq)
qed

lemma rn_five_thirds: "rn (5 / 3) = 7505999378950827 / 4503599627370496"
  by code_simp

lemma rn_overflow:
  assumes "2 ^ 1024 \<le> x"
  shows "2 ^ 1024 \<le> rn x"
proof -
  define e where "e = binade x"
  define q where "q = (2::real) powi (e - 52)"
  have xpos: "0 < x"
  proof -
    have "(0::real) < 2 ^ 1024" by simp
    with assms show ?thesis by linarith
  qed
  then have x0: "x \<noteq> 0" and ax: "\<bar>x\<bar> = x"
    by simp_all
  from binade_bounds [OF x0]
  have lo: "2 powi e \<le> x" and hi: "x < 2 powi (e + 1)"
    unfolding e_def ax by simp_all
  have e: "1024 \<le> e"
  proof (rule ccontr)
    assume "\<not> 1024 \<le> e"
    then have "(2::real) powi (e + 1) \<le> 2 powi 1024"
      by (intro power_int_increasing) simp_all
    with hi assms show False by simp
  qed
  have qpos: "0 < q"
    unfolding q_def by simp
  have quantum: "quantum x = q"
    using e by (simp add: quantum_def q_def e_def)
  have split: "(2::real) powi e = 2 ^ 52 * q"
  proof -
    have "(2::real) powi (52 + (e - 52)) = 2 powi 52 * 2 powi (e - 52)"
      by (rule power_int_add) simp
    moreover have "52 + (e - 52) = e" by simp
    ultimately show ?thesis by (simp add: q_def)
  qed
  define m where "m = round_half_even (x / q)"
  have "2 ^ 52 * q \<le> x"
    using lo split by simp
  then have "2 ^ 52 \<le> x / q"
    using qpos by (simp add: pos_le_divide_eq)
  moreover have "\<bar>real_of_int m - x / q\<bar> \<le> 1 / 2"
    unfolding m_def by (rule round_half_even_near)
  ultimately have "(2::real) ^ 52 - 1 < real_of_int m"
    by linarith
  then have "real_of_int (2 ^ 52 - 1) < real_of_int m"
    by simp
  then have "2 ^ 52 - 1 < m"
    by (simp only: of_int_less_iff)
  then have "2 ^ 52 \<le> m"
    by linarith
  then have "real_of_int (2 ^ 52) \<le> real_of_int m"
    by (simp only: of_int_le_iff)
  then have "2 ^ 52 * q \<le> real_of_int m * q"
    using qpos by simp
  then have "2 powi e \<le> rn x"
    using x0 by (simp add: rn_def quantum m_def split)
  moreover have "(2::real) powi 1024 \<le> 2 powi e"
    using e by (intro power_int_increasing) simp_all
  ultimately show ?thesis by simp
qed

lemma true_div_overflow:
  assumes "0 < b" "2 ^ 1024 * real_of_int b \<le> real_of_int a"
  shows "true_div a b = Inl (Exn ''OverflowError'')"
proof -
  have "2 ^ 1024 \<le> real_of_int a / real_of_int b"
    using assms by (simp add: pos_le_divide_eq)
  then have "2 ^ 1024 \<le> rn (real_of_int a / real_of_int b)"
    by (rule rn_overflow)
  then have "2 ^ 1024 \<le> \<bar>rn (real_of_int a / real_of_int b)\<bar>"
    by linarith
  then show ?thesis
    using assms(1) by (simp add: true_div_def Let_def)
qed

lemma true_div_beyond: "true_div 18014398509481986 2 = Inr 9007199254740992"
  by code_simp

section \<open>Properties of the per-candidate statistics\<close>

text \<open>
  Beyond \<open>2^53\<close> the float quotient loses digits, and beyond the range of the floats the
  division raises; the theorem on the engagement summary is stated below these bounds.
\<close>

lemma engagement_beyond_double_precision:
  "engagement_of [tweet ''a'' 9007199254740993 0, tweet ''b'' 9007199254740993 0]
     = Inr \<lparr>avg_likes = 9007199254740992, avg_retweets = 0, total_reach = 18014398509481986\<rparr>"
proof -
  have z: "true_div 0 2 = Inr 0" "py_int 0 = 0" "py_int 9007199254740992 = 9007199254740992"
    by (simp_all add: true_div_def rn_def py_int_def)
  show ?thesis
    by (simp add: engagement_of_def int_average_def tweet_def true_div_beyond z)
qed

lemma engagement_overflow:
  "engagement_of [tweet ''a'' (10 ^ 309) 0] = Inl (Exn ''OverflowError'')"
proof -
  have "(2::real) ^ 1024 * real_of_int 1 \<le> real_of_int (10 ^ 309)"
    by simp
  then have "true_div (10 ^ 309) 1 = Inl (Exn ''OverflowError'')"
    by (intro true_div_overflow) simp_all
  then show ?thesis
    by (simp add: engagement_of_def int_average_def tweet_def)
qed

text \<open>
  C9 as stated fails: the averages are truncated by \<^verbatim>\<open>int(...)\<close>, not rounded. For the
  likes 1, 2, 2 the quotient is the float nearest to 5/3; the code reports 1 where
  \<^verbatim>\<open>round\<close> gives 2.
\<close>

theorem engagement_round_counterexample:
  "engagement_of [tweet ''a'' 1 0, tweet ''b'' 2 0, tweet ''c'' 2 0]
     = Inr \<lparr>avg_likes = 1, avg_retweets = 0, total_reach = 5\<rparr>
   \<and> true_div (sum_list [1, 2, 2]) (int (length [1, 2, 2 :: int])) = Inr (rn (5 / 3))
   \<and> round_half_even (rn (5 / 3)) = 2
   \<and> round_half_even (mean [1, 2, 2]) = 2"
proof -
  have d: "true_div (sum_list [1, 2, 2]) (int (length [1, 2, 2 :: int])) = Inr (rn (5 / 3))"
    by (simp add: true_div_def rn_five_thirds)
  have p: "py_int (rn (5 / 3)) = 1"
    unfolding rn_five_thirds by (simp add: py_int_def)
  have z: "true_div 0 3 = Inr 0" "py_int 0 = 0"
    by (simp_all add: true_div_def rn_def py_int_def)
  have e: "engagement_of [tweet ''a'' 1 0, tweet ''b'' 2 0, tweet ''c'' 2 0]
     = Inr \<lparr>avg_likes = 1, avg_retweets = 0, total_reach = 5\<rparr>"
    using d by (simp add: engagement_of_def int_average_def tweet_def p z)
  have r: "round_half_even (rn (5 / 3)) = 2"
    unfolding rn_five_thirds by (simp add: round_half_even_def Let_def)
  have m: "round_half_even (mean [1, 2, 2]) = 2"
    by (simp add: round_half_even_def mean_def Let_def)
  from e d r m show ?thesis by (intro conjI)
qed

text \<open>
  C9, amended. For every non-empty sample of records with non-negative like and retweet
  counts whose sums, and whose size, are below \<open>2^53\<close>, the engagement step returns
  without raising, \<open>avg_likes\<close> and \<open>avg_retweets\<close> are the integer quotients of sum
  and count, that is the means rounded down (\<^verbatim>\<open>int\<close> truncates the float quotient), and
  \<open>total_reach = sum(likes) + 2 * sum(retweets)\<close>.
\<close>

theorem engagement_summary:
  assumes "sample \<noteq> []"
    and "\<forall>r \<in> set sample. 0 \<le> likes r \<and> 0 \<le> retweets r"
    and "sum_list (map likes sample) < 2 ^ 53"
    and "sum_list (map retweets sample) < 2 ^ 53"
    and "int (length sample) < 2 ^ 53"
  shows "engagement_of sample =
      Inr \<lparr>avg_likes = sum_list (map likes sample) div int (length sample),
           avg_retweets = sum_list (map retweets sample) div int (length sample),
           total_reach = sum_list (map likes sample) + 2 * sum_list (map retweets sample)\<rparr>
    \<and> sum_list (map likes sample) div int (length sample) = \<lfloor>mean (map likes sample)\<rfloor>
    \<and> sum_list (map retweets sample) div int (length sample) = \<lfloor>mean (map retweets sample)\<rfloor>"
proof -
  have nl: "0 \<le> sum_list (map likes sample)" and nr: "0 \<le> sum_list (map retweets sample)"
    using assms(2) by (auto intro!: sum_list_nonneg)
  have l: "int_average (map likes sample) = Inr (sum_list (map likes sample) div int (length sample))"
    using int_average_floor [of "map likes sample"] assms(1,3,5) nl by simp
  have r: "int_average (map retweets sample)
      = Inr (sum_list (map retweets sample) div int (length sample))"
    using int_average_floor [of "map retweets sample"] assms(1,4,5) nr by simp
  have e: "engagement_of sample =
      Inr \<lparr>avg_likes = sum_list (map likes sample) div int (length sample),
           avg_retweets = sum_list (map retweets sample) div int (length sample),
           total_reach = sum_list (map likes sample) + 2 * sum_list (map retweets sample)\<rparr>"
    by (simp add: engagement_of_def Let_def l r)
  have ml: "sum_list (map likes sample) div int (length sample) = \<lfloor>mean (map likes sample)\<rfloor>"
    using mean_floor [of "map likes sample"] by simp
  have mr: "sum_list (map retweets sample) div int (length sample) = \<lfloor>mean (map retweets sample)\<rfloor>"
    using mean_floor [of "map retweets sample"] by simp
  from e ml mr show ?thesis by (intro conjI)
qed

theorem engagement_summary_witness:
  "[tweet ''a'' 1 4, tweet ''b'' 2 0, tweet ''c'' 2 1] \<noteq> []
   \<and> sum_list (map likes [tweet ''a'' 1 4, tweet ''b'' 2 0, tweet ''c'' 2 1]) < 2 ^ 53
   \<and> sum_list (map retweets [tweet ''a'' 1 4, tweet ''b'' 2 0, tweet ''c'' 2 1]) < 2 ^ 53
   \<and> int (length [tweet ''a'' 1 4, tweet ''b'' 2 0, tweet ''c'' 2 1]) < 2 ^ 53
   \<and> engagement_of [tweet ''a'' 1 4, tweet ''b'' 2 0, tweet ''c'' 2 1]
       = Inr \<lparr>avg_likes = 1, avg_retweets = 1, total_reach = 15\<rparr>"
proof -
  let ?s = "[tweet ''a'' 1 4, tweet ''b'' 2 0, tweet ''c'' 2 1]"
  have ne: "?s \<noteq> []" by simp
  have nn: "\<forall>r \<in> set ?s. 0 \<le> likes r \<and> 0 \<le> retweets r"
    by (simp add: tweet_def)
  have sl: "sum_list (map likes ?s) < 2 ^ 53" and sr: "sum_list (map retweets ?s) < 2 ^ 53"
    and n: "int (length ?s) < 2 ^ 53"
    by (simp_all add: tweet_def)
  have "engagement_of ?s = Inr \<lparr>avg_likes = 1, avg_retweets = 1, total_reach = 15\<rparr>"
    using engagement_summary [OF ne nn sl sr n, THEN conjunct1]
    by (simp add: tweet_def)
  with ne sl sr n show ?thesis by (intro conjI)
qed



lemma extract_keywords_subset: "set (extract_keywords s) \<subseteq> upper ` set keyword_allowlist"
  by (auto simp: extract_keywords_def Let_def)

lemma all_keywords_subset: "set (all_keywords sample) \<subseteq> upper ` set keyword_allowlist"
  using extract_keywords_subset by (auto simp: all_keywords_def)



lemma singleton_listing:
  assumes "set_listing list_set"
  shows "list_set [k] = [k]"
proof -
  from assms have d: "distinct (list_set [k])" and s: "set (list_set [k]) = {k}"
    by (simp_all add: set_listing_def)
  then have "length (list_set [k]) = 1"
    by (metis distinct_card card_1_singleton_iff One_nat_def is_singletonI is_singleton_altdef)
  then obtain x where "list_set [k] = [x]"
    by (cases "list_set [k]") auto
  with s show ?thesis by simp
qed

lemma padding_repeats_any_listing:
  assumes "set_listing list_set"
  shows "top_keywords list_set ''tinubu'' [tweet ''economy'' 0 0]
       = [''ECONOMY'', ''ECONOMY'', ''APC'', ''REFORM'']"
proof -
  have a: "all_keywords [tweet ''economy'' 0 0] = [''ECONOMY'']"
    unfolding all_keywords_def tweet_def by code_simp
  show ?thesis
    unfolding top_keywords_def a singleton_listing [OF assms]
    by (simp add: fallback_def fallback_table_def)
qed





end
